theory Spec2Isabelle
  imports Main "HOL-Library.AList"
begin

section \<open>The bot hosting service of \<open>src/app.js\<close>\<close>

text \<open>
  The service keeps three pieces of state: the record file \<open>bots.json\<close> (read whole
  by \<open>loadBots\<close>, rewritten whole by \<open>saveBots\<close>), the in-memory object
  \<open>runningProcesses\<close> from bot id to child process, and the uploaded files on disk.
  Every route handler is modelled as a function from the state and the request to the
  reply and the new state.

  Strings are lists of code units below 256. The calls into Node's \<open>path\<close> module
  are modelled for POSIX, after the module's documented behaviour.
\<close>

subsection \<open>Strings\<close>

text \<open>
  The characters the regular expression class \<open>\s\<close> matches, among the code units
  below 256: tab, line feed, vertical tab, form feed, carriage return, space and the
  no-break space.
\<close>

definition js_space :: "char \<Rightarrow> bool" where
  "js_space c = (c \<in> set [CHR 0x09, CHR 0x0A, CHR 0x0B, CHR 0x0C, CHR 0x0D, CHR 0x20, CHR 0xA0])"

text \<open>\<open>s.replace(/\s+/g, '_')\<close>: every maximal run of whitespace becomes one underscore.\<close>

function replace_ws :: "string \<Rightarrow> string" where
  "replace_ws [] = []"
| "replace_ws (c # cs) =
     (if js_space c then CHR ''_'' # replace_ws (dropWhile js_space cs)
      else c # replace_ws cs)"
  by pat_completeness auto
termination
  by (relation "measure length") (auto simp: length_dropWhile_le less_Suc_eq_le)

text \<open>The decimal digits of a number, as a template literal prints \<open>Date.now()\<close>.\<close>

definition digit_char :: "nat \<Rightarrow> char" where
  "digit_char d = ''0123456789'' ! d"

fun show_nat :: "nat \<Rightarrow> string" where
  "show_nat n = (if n < 10 then [digit_char n] else show_nat (n div 10) @ [digit_char (n mod 10)])"

declare show_nat.simps [simp del]

text \<open>A template literal prints a missing value (\<open>undefined\<close>) as the word itself.\<close>

definition js_str :: "string option \<Rightarrow> string" where
  "js_str v = (case v of None \<Rightarrow> ''undefined'' | Some s \<Rightarrow> s)"

text \<open>A string is falsy when it is missing or empty.\<close>

definition falsy :: "string option \<Rightarrow> bool" where
  "falsy v = (case v of None \<Rightarrow> True | Some s \<Rightarrow> s = [])"

subsection \<open>Node's \<open>path\<close> module (POSIX)\<close>

definition is_slash :: "char \<Rightarrow> bool" where
  "is_slash c = (c = CHR ''/'')"

definition is_dot :: "char \<Rightarrow> bool" where
  "is_dot c = (c = CHR ''.'')"

text \<open>The slashes a path ends with.\<close>

definition trailing_slashes :: "string \<Rightarrow> string" where
  "trailing_slashes p = takeWhile is_slash (rev p)"

text \<open>The last portion of a path: what follows the last slash, trailing slashes ignored.\<close>

definition last_component :: "string \<Rightarrow> string" where
  "last_component p = rev (takeWhile (\<lambda>c. \<not> is_slash c) (dropWhile is_slash (rev p)))"

text \<open>
  \<open>path.extname(p)\<close>: the extension of the last portion, from its last dot to its end;
  empty when the portion has no dot, when its only dot is its first character, and when
  the portion is \<open>..\<close>.
\<close>

definition path_extname :: "string \<Rightarrow> string" where
  "path_extname p =
     (let comp = last_component p;
          ext = rev (takeWhile (\<lambda>c. \<not> is_dot c) (rev comp));
          stem = rev (drop 1 (dropWhile (\<lambda>c. \<not> is_dot c) (rev comp)))
      in if CHR ''.'' \<notin> set comp then []
         else if stem = [] then []
         else if comp = ''..'' then []
         else CHR ''.'' # ext)"

definition ends_with :: "string \<Rightarrow> string \<Rightarrow> bool" where
  "ends_with s suf = (length suf \<le> length s \<and> drop (length s - length suf) s = suf)"

text \<open>
  \<open>path.basename(p, ext)\<close>: the last portion of \<open>p\<close>, without \<open>ext\<close> when the portion
  ends with it and is longer. The other branches are what Node's scan returns at its
  corners: an \<open>ext\<close> equal to the whole path gives the empty string, and a portion that
  is a proper tail of \<open>ext\<close> is returned with the path's trailing slashes.
\<close>

definition path_basename :: "string \<Rightarrow> string \<Rightarrow> string" where
  "path_basename p ext =
     (let comp = last_component p in
      if ext = [] \<or> length p < length ext then comp
      else if ext = p then []
      else if ends_with comp ext then
        (if comp = ext then comp else take (length comp - length ext) comp)
      else if ends_with ext comp then comp @ trailing_slashes p
      else comp)"

text \<open>Splitting a path at its slashes, and joining the pieces again.\<close>

fun split_slash :: "string \<Rightarrow> string list" where
  "split_slash [] = [[]]"
| "split_slash (c # cs) =
     (if is_slash c then [] # split_slash cs
      else (case split_slash cs of [] \<Rightarrow> [[c]] | s # ss \<Rightarrow> (c # s) # ss))"

fun join_slash :: "string list \<Rightarrow> string" where
  "join_slash [] = []"
| "join_slash [s] = s"
| "join_slash (s # t # ss) = s @ ''/'' @ join_slash (t # ss)"

text \<open>
  The segments of a normalized path, the kept ones in \<open>kept\<close> (last first): empty and
  \<open>.\<close> segments are dropped, \<open>..\<close> removes the segment before it, and is kept
  itself only in a relative path with nothing left to remove.
\<close>

fun normalize_segments :: "bool \<Rightarrow> string list \<Rightarrow> string list \<Rightarrow> string list" where
  "normalize_segments up [] kept = rev kept"
| "normalize_segments up (seg # rest) kept =
     (if seg = [] \<or> seg = ''.'' then normalize_segments up rest kept
      else if seg = ''..'' then
        (case kept of
           [] \<Rightarrow> normalize_segments up rest (if up then [''..''] else [])
         | t # kept1 \<Rightarrow>
             if t = ''..'' then normalize_segments up rest (if up then seg # kept else kept)
             else normalize_segments up rest kept1)
      else normalize_segments up rest (seg # kept))"

definition path_normalize :: "string \<Rightarrow> string" where
  "path_normalize p =
     (if p = [] then ''.''
      else
        let absolute = is_slash (hd p);
            trailing = is_slash (last p);
            q = join_slash (normalize_segments (\<not> absolute) (split_slash p) [])
        in if q = [] then (if absolute then ''/'' else if trailing then ''./'' else ''.'')
           else (if absolute then ''/'' else []) @ q @ (if trailing then ''/'' else []))"

text \<open>\<open>path.join(a, b)\<close> on two strings: the non-empty ones joined by a slash, normalized.\<close>

definition path_join :: "string \<Rightarrow> string \<Rightarrow> string" where
  "path_join a b =
     (let parts = filter (\<lambda>s. s \<noteq> []) [a, b] in
      if parts = [] then ''.'' else path_normalize (join_slash parts))"

subsection \<open>Objects\<close>

text \<open>
  Both \<open>bots\<close> (the result of \<open>JSON.parse\<close>) and \<open>runningProcesses\<close> (created by
  \<open>{}\<close>) are ordinary objects, so reading \<open>obj[k]\<close> finds the object's own property
  \<open>k\<close> and otherwise the member of \<open>Object.prototype\<close> of that name. These members
  are functions, and \<open>__proto__\<close> is the prototype object itself: all of them truthy.
\<close>

definition object_prototype_keys :: "string list" where
  "object_prototype_keys =
     [''constructor'', ''__defineGetter__'', ''__defineSetter__'', ''hasOwnProperty'',
      ''__lookupGetter__'', ''__lookupSetter__'', ''isPrototypeOf'', ''propertyIsEnumerable'',
      ''toString'', ''valueOf'', ''__proto__'', ''toLocaleString'']"

datatype 'a lookup = Own 'a | Inherited string | Undefined

definition js_get :: "(string \<rightharpoonup> 'a) \<Rightarrow> string \<Rightarrow> 'a lookup" where
  "js_get obj k =
     (case obj k of
        Some v \<Rightarrow> Own v
      | None \<Rightarrow> if k \<in> set object_prototype_keys then Inherited k else Undefined)"

text \<open>Own values are objects (records, child processes), so only a missing property is falsy.\<close>

definition truthy :: "'a lookup \<Rightarrow> bool" where
  "truthy p = (case p of Undefined \<Rightarrow> False | _ \<Rightarrow> True)"

text \<open>
  The assignment \<open>obj[k] = v\<close> creates or overwrites the own property \<open>k\<close>, keeping its
  place among the keys. For \<open>k = '__proto__'\<close> it replaces the object's prototype
  instead and creates no own property.
\<close>

definition obj_set :: "(string \<times> 'a) list \<Rightarrow> string \<Rightarrow> 'a \<Rightarrow> (string \<times> 'a) list" where
  "obj_set obj k v = (if k = ''__proto__'' then obj else AList.update k v obj)"

subsection \<open>State\<close>

record bot =
  bot_id :: string
  name :: string
  username :: string
  file_path :: string
  file_type :: string
  status :: string
  created_at :: string
  started_at :: "string option"
  stopped_at :: "string option"
  cpu :: nat
  memory :: nat

text \<open>The handle \<open>spawn(command, args)\<close> returns.\<close>

record child_process =
  command :: string
  args :: "string list"

text \<open>
  \<open>bots_db\<close> is the content of \<open>bots.json\<close>, its keys in the order of the file;
  \<open>disk\<close> holds the paths of the uploaded files; \<open>killed\<close> lists the processes that
  \<open>kill()\<close> was called on, in order.
\<close>

record state =
  bots_db :: "(string \<times> bot) list"
  runningProcesses :: "string \<rightharpoonup> child_process"
  disk :: "string set"
  killed :: "child_process list"

definition init_state :: state where
  "init_state = \<lparr>bots_db = [], runningProcesses = Map.empty, disk = {}, killed = []\<rparr>"

text \<open>
  The service as it starts: \<open>runningProcesses\<close> is empty, the record file and the
  uploaded files are what an earlier run left.
\<close>

definition service_start :: "(string \<times> bot) list \<Rightarrow> string set \<Rightarrow> state" where
  "service_start db files = \<lparr>bots_db = db, runningProcesses = Map.empty, disk = files, killed = []\<rparr>"

definition loadBots :: "state \<Rightarrow> (string \<times> bot) list" where
  "loadBots s = bots_db s"

definition saveBots :: "(string \<times> bot) list \<Rightarrow> state \<Rightarrow> state" where
  "saveBots bots s = s\<lparr>bots_db := bots\<rparr>"

subsection \<open>Replies\<close>

text \<open>
  The exceptions the handlers can meet: calling \<open>kill\<close> on a member of
  \<open>Object.prototype\<close> (not a function), \<open>path.join\<close> or \<open>spawn\<close> on a missing
  value, and a failed write of the uploaded file.
\<close>

datatype exn = KillNotFunction | PathArgType | SpawnArgType | StorageFailed

datatype payload =
    Message string
  | Uploaded string string
  | BotList "bot list"
  | LogText string
  | StatusInfo string nat nat

text \<open>
  \<open>R500\<close> is the reply of a handler's \<open>catch\<close> block. \<open>Unhandled\<close> is an exception
  or error raised while multer stores the file, before the route handler runs: the
  handler sends no reply of its own.
\<close>

datatype reply = R200 payload | R400 string | R404 string | R500 exn | Unhandled exn

abbreviation NotFound :: reply where
  "NotFound \<equiv> R404 ''Bot not found''"

abbreviation AlreadyRunning :: reply where
  "AlreadyRunning \<equiv> R400 ''Bot already running''"

abbreviation NotRunning :: reply where
  "NotRunning \<equiv> R400 ''Bot not running''"

abbreviation ValidationError :: reply where
  "ValidationError \<equiv> R400 ''Missing required fields''"

definition is_running :: "state \<Rightarrow> string \<Rightarrow> bool" where
  "is_running s botId = truthy (js_get (runningProcesses s) botId)"

subsection \<open>Upload\<close>

text \<open>
  The multipart request: the fields \<open>username\<close> and \<open>bot_name\<close> of \<open>req.body\<close>
  (\<open>None\<close> for a field the request does not carry) and the original name of the
  \<open>bot_file\<close> part (\<open>None\<close> for a request without a file). The fields are taken to
  come before the file, so that the storage callbacks and the route handler read the
  same values.
\<close>

record upload_request =
  req_username :: "string option"
  req_bot_name :: "string option"
  req_file :: "string option"

record uploaded_file =
  filename :: string
  path :: string

definition BOTS_DIR :: string where
  "BOTS_DIR = ''./user_bots''"

text \<open>The \<open>destination\<close> callback; \<open>path.join\<close> throws on a value that is no string.\<close>

definition storage_destination :: "upload_request \<Rightarrow> exn + string" where
  "storage_destination req =
     (case req_username req of
        None \<Rightarrow> Inl PathArgType
      | Some u \<Rightarrow> Inr (path_join BOTS_DIR u))"

text \<open>The \<open>filename\<close> callback, \<open>now\<close> being \<open>Date.now()\<close>.\<close>

definition storage_filename :: "upload_request \<Rightarrow> nat \<Rightarrow> string \<Rightarrow> string" where
  "storage_filename req now originalname =
     (let botId = replace_ws
            (js_str (req_username req) @ ''_'' @ js_str (req_bot_name req) @ ''_'' @ show_nat now);
          ext = path_extname originalname
      in botId @ ext)"

text \<open>
  \<open>upload.single('bot_file')\<close>: without a file part \<open>req.file\<close> stays undefined;
  otherwise the disk storage asks for the destination, then for the file name, and
  writes the file to their join. \<open>io_ok\<close> tells whether creating the directory and
  writing the file succeed.
\<close>

definition upload_single ::
    "state \<Rightarrow> upload_request \<Rightarrow> nat \<Rightarrow> bool \<Rightarrow> exn + (uploaded_file option \<times> state)" where
  "upload_single s req now io_ok =
     (case req_file req of
        None \<Rightarrow> Inr (None, s)
      | Some originalname \<Rightarrow>
          (case storage_destination req of
             Inl e \<Rightarrow> Inl e
           | Inr dir \<Rightarrow>
               let fname = storage_filename req now originalname;
                   p = path_join dir fname
               in if io_ok
                  then Inr (Some \<lparr>filename = fname, path = p\<rparr>, s\<lparr>disk := insert p (disk s)\<rparr>)
                  else Inl StorageFailed))"

text \<open>The route handler of \<open>POST /api/bot/upload\<close>, \<open>now\<close> being the ISO time.\<close>

definition upload_handler ::
    "state \<Rightarrow> upload_request \<Rightarrow> uploaded_file option \<Rightarrow> string \<Rightarrow> reply \<times> state" where
  "upload_handler s req file now =
     (if falsy (req_username req) \<or> falsy (req_bot_name req) then (ValidationError, s)
      else
        case file of
          None \<Rightarrow> (ValidationError, s)
        | Some f \<Rightarrow>
            let botId = path_basename (filename f) (path_extname (filename f));
                fileType = drop 1 (path_extname (filename f));
                bots = obj_set (loadBots s) botId
                  \<lparr>bot_id = botId, name = js_str (req_bot_name req),
                   username = js_str (req_username req), file_path = path f,
                   file_type = fileType, status = ''stopped'', created_at = now,
                   started_at = None, stopped_at = None, cpu = 0, memory = 0\<rparr>
            in (R200 (Uploaded botId ''Bot uploaded successfully''), saveBots bots s))"

definition post_upload ::
    "state \<Rightarrow> upload_request \<Rightarrow> nat \<Rightarrow> string \<Rightarrow> bool \<Rightarrow> reply \<times> state" where
  "post_upload s req now_ms now io_ok =
     (case upload_single s req now_ms io_ok of
        Inl e \<Rightarrow> (Unhandled e, s)
      | Inr (file, s1) \<Rightarrow> upload_handler s1 req file now)"

subsection \<open>Lifecycle\<close>

text \<open>\<open>GET /api/bots/:username\<close>: the user's records, each with its status replaced.\<close>

definition get_bots :: "state \<Rightarrow> string \<Rightarrow> reply" where
  "get_bots s user =
     (let bots = loadBots s;
          userBots = map
            (\<lambda>b. b\<lparr>status := (if is_running s (bot_id b) then ''running'' else ''stopped'')\<rparr>)
            (filter (\<lambda>b. username b = user) (map snd bots))
      in R200 (BotList userBots))"

text \<open>
  \<open>POST /api/bot/start/:botId\<close>, \<open>now\<close> being the ISO time. Past the two guards
  \<open>bots[botId]\<close> is an own record; were it a member of \<open>Object.prototype\<close>, its
  \<open>file_path\<close> would be undefined and \<open>spawn\<close> would throw.
\<close>

definition post_start :: "state \<Rightarrow> string \<Rightarrow> string \<Rightarrow> reply \<times> state" where
  "post_start s botId now =
     (let bots = loadBots s;
          found = js_get (map_of bots) botId
      in if \<not> truthy found then (NotFound, s)
         else if truthy (js_get (runningProcesses s) botId) then (AlreadyRunning, s)
         else
           case found of
             Own b \<Rightarrow>
               let cmd = (if file_type b = ''py'' then ''python3'' else ''node'');
                   process = \<lparr>command = cmd, args = [file_path b]\<rparr>;
                   s1 = s\<lparr>runningProcesses := (runningProcesses s)(botId \<mapsto> process)\<rparr>;
                   b1 = b\<lparr>status := ''running'', started_at := Some now\<rparr>
               in (R200 (Message ''Bot started successfully''),
                   saveBots (AList.update botId b1 bots) s1)
           | _ \<Rightarrow> (R500 SpawnArgType, s))"

text \<open>The observer of the child's \<open>close\<close> event that the start of \<open>botId\<close> registers.\<close>

definition on_close :: "state \<Rightarrow> string \<Rightarrow> state" where
  "on_close s botId = s\<lparr>runningProcesses := (runningProcesses s)(botId := None)\<rparr>"

text \<open>
  \<open>runningProcesses[botId].kill()\<close> followed by \<open>delete runningProcesses[botId]\<close>, as
  stop and delete do on a truthy handle. A member of \<open>Object.prototype\<close> has no
  \<open>kill\<close> method: the call throws before anything is removed. (So it would on a
  missing handle, which both routes exclude.)
\<close>

definition kill_and_forget :: "state \<Rightarrow> string \<Rightarrow> exn + state" where
  "kill_and_forget s botId =
     (case js_get (runningProcesses s) botId of
        Own p \<Rightarrow>
          Inr (s\<lparr>killed := killed s @ [p],
                 runningProcesses := (runningProcesses s)(botId := None)\<rparr>)
      | Inherited k \<Rightarrow> Inl KillNotFunction
      | Undefined \<Rightarrow> Inl KillNotFunction)"

text \<open>\<open>POST /api/bot/stop/:botId\<close>, \<open>now\<close> being the ISO time.\<close>

definition post_stop :: "state \<Rightarrow> string \<Rightarrow> string \<Rightarrow> reply \<times> state" where
  "post_stop s botId now =
     (let bots = loadBots s;
          found = js_get (map_of bots) botId
      in if \<not> truthy found then (NotFound, s)
         else if \<not> truthy (js_get (runningProcesses s) botId) then (NotRunning, s)
         else
           case kill_and_forget s botId of
             Inl e \<Rightarrow> (R500 e, s)
           | Inr s1 \<Rightarrow>
               let bots1 =
                     (case found of
                        Own b \<Rightarrow>
                          AList.update botId (b\<lparr>status := ''stopped'', stopped_at := Some now\<rparr>) bots
                      | _ \<Rightarrow> bots)
               in (R200 (Message ''Bot stopped successfully''), saveBots bots1 s1))"

text \<open>The file of a record is removed from the disk when it is there.\<close>

definition without_file :: "state \<Rightarrow> bot \<Rightarrow> state" where
  "without_file s b = (if file_path b \<in> disk s then s\<lparr>disk := disk s - {file_path b}\<rparr> else s)"

text \<open>
  \<open>DELETE /api/bot/delete/:botId\<close>. For a member of \<open>Object.prototype\<close> in the
  place of the record, \<open>file_path\<close> is undefined and no file exists under it.
\<close>

definition delete_bot :: "state \<Rightarrow> string \<Rightarrow> reply \<times> state" where
  "delete_bot s botId =
     (let bots = loadBots s;
          found = js_get (map_of bots) botId
      in if \<not> truthy found then (NotFound, s)
         else
           case (if truthy (js_get (runningProcesses s) botId)
                 then kill_and_forget s botId else Inr s) of
             Inl e \<Rightarrow> (R500 e, s)
           | Inr s1 \<Rightarrow>
               let s2 = (case found of Own b \<Rightarrow> without_file s1 b | _ \<Rightarrow> s1)
               in (R200 (Message ''Bot deleted successfully''),
                   saveBots (AList.delete botId bots) s2))"

text \<open>
  What \<open>bot.name\<close> prints for a member of \<open>Object.prototype\<close>: the name of the
  function, and \<open>undefined\<close> for the prototype object itself.
\<close>

definition inherited_name :: "string \<Rightarrow> string" where
  "inherited_name k =
     (if k = ''constructor'' then ''Object''
      else if k = ''__proto__'' then ''undefined''
      else k)"

text \<open>\<open>GET /api/bot/logs/:botId\<close>.\<close>

definition get_logs :: "state \<Rightarrow> string \<Rightarrow> reply" where
  "get_logs s botId =
     (let bots = loadBots s;
          found = js_get (map_of bots) botId;
          st = (if is_running s botId then ''Running'' else ''Stopped'')
      in case found of
           Undefined \<Rightarrow> NotFound
         | Own b \<Rightarrow>
             R200 (LogText
               (''Bot: '' @ name b @ [CHR 0x0A] @
                ''Status: '' @ st @ [CHR 0x0A] @
                ''Created: '' @ created_at b @ [CHR 0x0A] @
                (if falsy (started_at b) then []
                 else ''Last started: '' @ js_str (started_at b) @ [CHR 0x0A])))
         | Inherited k \<Rightarrow>
             R200 (LogText
               (''Bot: '' @ inherited_name k @ [CHR 0x0A] @
                ''Status: '' @ st @ [CHR 0x0A] @
                ''Created: undefined'' @ [CHR 0x0A])))"

text \<open>\<open>GET /api/bot/status/:botId\<close>.\<close>

definition get_status :: "state \<Rightarrow> string \<Rightarrow> reply" where
  "get_status s botId =
     (let bots = loadBots s;
          found = js_get (map_of bots) botId;
          st = (if is_running s botId then ''running'' else ''stopped'')
      in case found of
           Undefined \<Rightarrow> NotFound
         | Own b \<Rightarrow> R200 (StatusInfo st (cpu b) (memory b))
         | Inherited k \<Rightarrow> R200 (StatusInfo st 0 0))"

subsection \<open>Runs of the service\<close>

text \<open>
  What can happen to a running service, one at a time: a request, the \<open>close\<close> event
  of a child that was started for an id, and a restart of the service, which keeps
  \<open>bots.json\<close> and the files and starts with an empty \<open>runningProcesses\<close>.
\<close>

datatype event =
    Upload upload_request nat string bool
  | Start string string
  | Stop string string
  | Delete string
  | Close string
  | Restart

fun step :: "state \<Rightarrow> event \<Rightarrow> state" where
  "step s (Upload req now_ms now io_ok) = snd (post_upload s req now_ms now io_ok)"
| "step s (Start botId now) = snd (post_start s botId now)"
| "step s (Stop botId now) = snd (post_stop s botId now)"
| "step s (Delete botId) = snd (delete_bot s botId)"
| "step s (Close botId) = on_close s botId"
| "step s Restart = s\<lparr>runningProcesses := Map.empty\<rparr>"

definition run :: "event list \<Rightarrow> state" where
  "run es = foldl step init_state es"

text \<open>
  The record file as the service writes it: no key twice, and every record under the key
  that is its \<open>id\<close>.
\<close>

definition well_keyed :: "(string \<times> bot) list \<Rightarrow> bool" where
  "well_keyed db = (distinct (map fst db) \<and> list_all (\<lambda>(k, b). bot_id b = k) db)"

subsection \<open>Example requests\<close>

text \<open>An ordinary upload of a Python script, and the service after it.\<close>

definition alice_request :: upload_request where
  "alice_request =
     \<lparr>req_username = Some ''alice'', req_bot_name = Some ''echoBot'', req_file = Some ''echo.py''\<rparr>"

definition alice_id :: string where
  "alice_id = ''alice_echoBot_1700000000000''"

definition alice_state :: state where
  "alice_state = run [Upload alice_request 1700000000000 ''2023-11-14T22:13:20.000Z'' True]"

text \<open>An upload of a JavaScript file.\<close>

definition bob_request :: upload_request where
  "bob_request =
     \<lparr>req_username = Some ''bob'', req_bot_name = Some ''pinger'', req_file = Some ''ping.js''\<rparr>"

definition bob_id :: string where
  "bob_id = ''bob_pinger_1700000000001''"

definition bob_state :: state where
  "bob_state = run [Upload bob_request 1700000000001 ''2023-11-14T22:13:20.001Z'' True]"

text \<open>
  Uploads of a file whose name has no extension, by owners whose names hold a dot: the
  handler then takes what follows the dot for the extension of the stored file.
\<close>

definition dotted_request :: upload_request where
  "dotted_request =
     \<lparr>req_username = Some ''alice.smith'', req_bot_name = Some ''echoBot'',
      req_file = Some ''echo''\<rparr>"

definition constructor_request :: upload_request where
  "constructor_request =
     \<lparr>req_username = Some ''constructor.a'', req_bot_name = Some ''b'', req_file = Some ''bot''\<rparr>"

definition constructor_state :: state where
  "constructor_state =
     run [Upload constructor_request 1700000000000 ''2023-11-14T22:13:20.000Z'' True]"

definition proto_request :: upload_request where
  "proto_request =
     \<lparr>req_username = Some ''__proto__.a'', req_bot_name = Some ''b'', req_file = Some ''bot''\<rparr>"

text \<open>An upload that carries a file and a bot name, and no \<open>username\<close> field.\<close>

definition nameless_request :: upload_request where
  "nameless_request =
     \<lparr>req_username = None, req_bot_name = Some ''echoBot'', req_file = Some ''echo.py''\<rparr>"

section \<open>Properties\<close>

subsection \<open>Reading objects\<close>

lemma truthy_js_get: "truthy (js_get m k) = (m k \<noteq> None \<or> k \<in> set object_prototype_keys)"
  by (simp add: truthy_def js_get_def split: option.split)

lemma truthy_simps [simp]:
  "truthy (Own v)" "truthy (Inherited k)" "\<not> truthy Undefined"
  by (simp_all add: truthy_def)

lemma js_get_Some: "m k = Some v \<Longrightarrow> js_get m k = Own v"
  by (simp add: js_get_def)

lemma js_get_prototype:
  "m k = None \<Longrightarrow> k \<in> set object_prototype_keys \<Longrightarrow> js_get m k = Inherited k"
  by (simp add: js_get_def)

lemma js_get_missing:
  "m k = None \<Longrightarrow> k \<notin> set object_prototype_keys \<Longrightarrow> js_get m k = Undefined"
  by (simp add: js_get_def)

lemma not_running_iff:
  "(\<not> is_running s i) = (runningProcesses s i = None \<and> i \<notin> set object_prototype_keys)"
  by (simp add: is_running_def truthy_js_get)

subsection \<open>Evaluating the examples\<close>

lemmas eval_defs =
  run_def post_upload_def upload_single_def upload_handler_def storage_destination_def
  storage_filename_def BOTS_DIR_def js_str_def falsy_def path_extname_def path_basename_def
  last_component_def trailing_slashes_def is_slash_def is_dot_def ends_with_def path_join_def
  path_normalize_def js_space_def show_nat.simps digit_char_def obj_set_def loadBots_def
  saveBots_def init_state_def Let_def

lemma alice_state_eq:
  "alice_state =
     \<lparr>bots_db =
        [(alice_id,
          \<lparr>bot_id = alice_id, name = ''echoBot'', username = ''alice'',
           file_path = ''user_bots/alice/alice_echoBot_1700000000000.py'', file_type = ''py'',
           status = ''stopped'', created_at = ''2023-11-14T22:13:20.000Z'', started_at = None,
           stopped_at = None, cpu = 0, memory = 0\<rparr>)],
      runningProcesses = Map.empty,
      disk = {''user_bots/alice/alice_echoBot_1700000000000.py''},
      killed = []\<rparr>"
  by (simp add: alice_state_def alice_request_def alice_id_def eval_defs)

lemma bob_state_eq:
  "bob_state =
     \<lparr>bots_db =
        [(bob_id,
          \<lparr>bot_id = bob_id, name = ''pinger'', username = ''bob'',
           file_path = ''user_bots/bob/bob_pinger_1700000000001.js'', file_type = ''js'',
           status = ''stopped'', created_at = ''2023-11-14T22:13:20.001Z'', started_at = None,
           stopped_at = None, cpu = 0, memory = 0\<rparr>)],
      runningProcesses = Map.empty,
      disk = {''user_bots/bob/bob_pinger_1700000000001.js''},
      killed = []\<rparr>"
  by (simp add: bob_state_def bob_request_def bob_id_def eval_defs)

lemma constructor_state_eq:
  "constructor_state =
     \<lparr>bots_db =
        [(''constructor'',
          \<lparr>bot_id = ''constructor'', name = ''b'', username = ''constructor.a'',
           file_path = ''user_bots/constructor.a/constructor.a_b_1700000000000'',
           file_type = ''a_b_1700000000000'',
           status = ''stopped'', created_at = ''2023-11-14T22:13:20.000Z'', started_at = None,
           stopped_at = None, cpu = 0, memory = 0\<rparr>)],
      runningProcesses = Map.empty,
      disk = {''user_bots/constructor.a/constructor.a_b_1700000000000''},
      killed = []\<rparr>"
  by (simp add: constructor_state_def constructor_request_def eval_defs)

lemma alice_id_ordinary: "alice_id \<notin> set object_prototype_keys"
  by (simp add: alice_id_def object_prototype_keys_def)

lemma bob_id_ordinary: "bob_id \<notin> set object_prototype_keys"
  by (simp add: bob_id_def object_prototype_keys_def)

lemma constructor_is_prototype_key: "''constructor'' \<in> set object_prototype_keys"
  by (simp add: object_prototype_keys_def)

subsection \<open>Start\<close>


lemma start_fresh:
  assumes "map_of (bots_db s) i = Some b" and "\<not> is_running s i"
  shows "post_start s i now =
     (R200 (Message ''Bot started successfully''),
      s\<lparr>runningProcesses := (runningProcesses s)
            (i \<mapsto> \<lparr>command = (if file_type b = ''py'' then ''python3'' else ''node''),
                    args = [file_path b]\<rparr>),
        bots_db := AList.update i (b\<lparr>status := ''running'', started_at := Some now\<rparr>) (bots_db s)\<rparr>)"
  using assms
  by (simp add: post_start_def loadBots_def saveBots_def is_running_def truthy_js_get
      js_get_Some Let_def)

lemma start_ok_record:
  assumes "fst (post_start s i now) = R200 m"
  shows "\<exists>b. map_of (bots_db s) i = Some b \<and> \<not> is_running s i"
  using assms
  by (auto simp: post_start_def loadBots_def is_running_def truthy_js_get js_get_def Let_def
      split: if_splits option.splits lookup.splits)

lemma start_unknown:
  "map_of (bots_db s) i = None \<Longrightarrow> i \<notin> set object_prototype_keys \<Longrightarrow>
   post_start s i now = (NotFound, s)"
  by (simp add: post_start_def loadBots_def truthy_js_get)

lemma start_prototype_key:
  "i \<in> set object_prototype_keys \<Longrightarrow> post_start s i now = (AlreadyRunning, s)"
  by (simp add: post_start_def loadBots_def truthy_js_get)

text \<open>
  C1. When a child process ends, the observer that start registered removes the id from
  \<open>runningProcesses\<close> and changes nothing else: the record file is what it was. So
  after a successful start the status route reports \<open>running\<close>, and after the end
  of the process the record still says \<open>running\<close>, while the id is gone from
  \<open>runningProcesses\<close> and the status route reports \<open>stopped\<close>.
\<close>

theorem exit_observer_keeps_record:
  assumes "fst (post_start s botId now) = R200 m"
  shows "bots_db (on_close t i) = bots_db t \<and> disk (on_close t i) = disk t
    \<and> killed (on_close t i) = killed t
    \<and> runningProcesses (on_close t i) = (runningProcesses t)(i := None)
    \<and> runningProcesses (on_close (snd (post_start s botId now)) botId) botId = None
    \<and> bots_db (on_close (snd (post_start s botId now)) botId) = bots_db (snd (post_start s botId now))
    \<and> (\<exists>b. map_of (bots_db (on_close (snd (post_start s botId now)) botId)) botId = Some b
          \<and> status b = ''running''
          \<and> get_status (snd (post_start s botId now)) botId
              = R200 (StatusInfo ''running'' (cpu b) (memory b))
          \<and> get_status (on_close (snd (post_start s botId now)) botId) botId
              = R200 (StatusInfo ''stopped'' (cpu b) (memory b)))"
proof -
  from start_ok_record [OF assms] obtain b where
    b: "map_of (bots_db s) botId = Some b" and fresh: "\<not> is_running s botId"
    by blast
  let ?b1 = "b\<lparr>status := ''running'', started_at := Some now\<rparr>"
  let ?s2 = "on_close (snd (post_start s botId now)) botId"
  have db: "map_of (bots_db ?s2) botId = Some ?b1"
    by (simp add: start_fresh [OF b fresh] on_close_def update_conv')
  have gone: "runningProcesses ?s2 botId = None"
    by (simp add: on_close_def)
  from fresh have ord: "botId \<notin> set object_prototype_keys"
    by (simp add: not_running_iff)
  have after: "get_status ?s2 botId = R200 (StatusInfo ''stopped'' (cpu ?b1) (memory ?b1))"
    using db gone ord
    by (simp add: get_status_def loadBots_def js_get_Some is_running_def truthy_js_get Let_def)
  have "map_of (bots_db (snd (post_start s botId now))) botId = Some ?b1"
    and "runningProcesses (snd (post_start s botId now)) botId \<noteq> None"
    by (simp_all add: start_fresh [OF b fresh] update_conv')
  then have "get_status (snd (post_start s botId now)) botId
      = R200 (StatusInfo ''running'' (cpu ?b1) (memory ?b1))"
    by (simp add: get_status_def loadBots_def js_get_Some is_running_def truthy_js_get Let_def)
  with after db gone show ?thesis
    by (simp add: on_close_def)
qed

theorem exit_observer_keeps_record_witness:
  "fst (post_start alice_state alice_id ''2023-11-14T22:14:00.000Z'')
     = R200 (Message ''Bot started successfully'')
   \<and> runningProcesses (snd (post_start alice_state alice_id ''2023-11-14T22:14:00.000Z'')) alice_id
       \<noteq> None
   \<and> runningProcesses
        (on_close (snd (post_start alice_state alice_id ''2023-11-14T22:14:00.000Z'')) alice_id)
        alice_id = None
   \<and> (\<exists>b. map_of (bots_db
          (on_close (snd (post_start alice_state alice_id ''2023-11-14T22:14:00.000Z'')) alice_id))
          alice_id = Some b \<and> status b = ''running'')"
proof -
  have b: "map_of (bots_db alice_state) alice_id \<noteq> None"
    by (simp add: alice_state_eq)
  have fresh: "\<not> is_running alice_state alice_id"
    by (simp add: not_running_iff alice_id_ordinary) (simp add: alice_state_eq)
  from b obtain r where r: "map_of (bots_db alice_state) alice_id = Some r"
    by blast
  have ok: "fst (post_start alice_state alice_id ''2023-11-14T22:14:00.000Z'')
     = R200 (Message ''Bot started successfully'')"
    by (simp add: start_fresh [OF r fresh])
  have live: "runningProcesses (snd (post_start alice_state alice_id ''2023-11-14T22:14:00.000Z''))
      alice_id \<noteq> None"
    by (simp add: start_fresh [OF r fresh])
  from exit_observer_keeps_record [OF ok] ok live show ?thesis
    by blast
qed



text \<open>
  C7. When start launches a bot, the interpreter depends on the record's
  \<open>file_type\<close> alone: \<open>python3\<close> when it is \<open>py\<close>, \<open>node\<close> for every other value.
  The script's path is the only argument.
\<close>

theorem start_selects_interpreter:
  assumes "map_of (bots_db s) botId = Some b" and "\<not> is_running s botId"
  shows "runningProcesses (snd (post_start s botId now)) botId
    = Some \<lparr>command = (if file_type b = ''py'' then ''python3'' else ''node''),
            args = [file_path b]\<rparr>"
  by (simp add: start_fresh [OF assms])

theorem start_selects_interpreter_witness:
  "map_of (bots_db alice_state) alice_id \<noteq> None \<and> \<not> is_running alice_state alice_id
   \<and> runningProcesses (snd (post_start alice_state alice_id ''2023-11-14T22:14:00.000Z'')) alice_id
       = Some \<lparr>command = ''python3'',
               args = [''user_bots/alice/alice_echoBot_1700000000000.py'']\<rparr>
   \<and> map_of (bots_db bob_state) bob_id \<noteq> None \<and> \<not> is_running bob_state bob_id
   \<and> runningProcesses (snd (post_start bob_state bob_id ''2023-11-14T22:14:00.000Z'')) bob_id
       = Some \<lparr>command = ''node'', args = [''user_bots/bob/bob_pinger_1700000000001.js'']\<rparr>"
proof -
  let ?a = "\<lparr>bot_id = alice_id, name = ''echoBot'', username = ''alice'',
           file_path = ''user_bots/alice/alice_echoBot_1700000000000.py'', file_type = ''py'',
           status = ''stopped'', created_at = ''2023-11-14T22:13:20.000Z'', started_at = None,
           stopped_at = None, cpu = 0, memory = 0\<rparr>"
  let ?b = "\<lparr>bot_id = bob_id, name = ''pinger'', username = ''bob'',
           file_path = ''user_bots/bob/bob_pinger_1700000000001.js'', file_type = ''js'',
           status = ''stopped'', created_at = ''2023-11-14T22:13:20.001Z'', started_at = None,
           stopped_at = None, cpu = 0, memory = 0\<rparr>"
  have a: "map_of (bots_db alice_state) alice_id = Some ?a"
    by (simp add: alice_state_eq)
  have fa: "\<not> is_running alice_state alice_id"
    by (simp add: not_running_iff alice_id_ordinary) (simp add: alice_state_eq)
  have b: "map_of (bots_db bob_state) bob_id = Some ?b"
    by (simp add: bob_state_eq)
  have fb: "\<not> is_running bob_state bob_id"
    by (simp add: not_running_iff bob_id_ordinary) (simp add: bob_state_eq)
  from start_selects_interpreter [OF a fa, of "''2023-11-14T22:14:00.000Z''"]
    start_selects_interpreter [OF b fb, of "''2023-11-14T22:14:00.000Z''"] a fa b fb
  show ?thesis
    by simp
qed

subsection \<open>Upload\<close>

lemma upload_handler_invalid:
  "falsy (req_username req) \<or> falsy (req_bot_name req) \<or> file = None \<Longrightarrow>
   upload_handler s req file now = (ValidationError, s)"
  by (auto simp: upload_handler_def)

lemma upload_handler_valid:
  assumes "\<not> falsy (req_username req)" and "\<not> falsy (req_bot_name req)"
  shows "upload_handler s req (Some f) now =
     (R200 (Uploaded (path_basename (filename f) (path_extname (filename f)))
              ''Bot uploaded successfully''),
      s\<lparr>bots_db := obj_set (bots_db s) (path_basename (filename f) (path_extname (filename f)))
          \<lparr>bot_id = path_basename (filename f) (path_extname (filename f)),
           name = js_str (req_bot_name req), username = js_str (req_username req),
           file_path = path f, file_type = drop 1 (path_extname (filename f)),
           status = ''stopped'', created_at = now, started_at = None, stopped_at = None,
           cpu = 0, memory = 0\<rparr>\<rparr>)"
  using assms by (simp add: upload_handler_def loadBots_def saveBots_def Let_def)

lemma upload_handler_registry:
  "runningProcesses (snd (upload_handler s req file now)) = runningProcesses s"
proof (cases "falsy (req_username req) \<or> falsy (req_bot_name req) \<or> file = None")
  case True
  then show ?thesis by (simp add: upload_handler_invalid)
next
  case False
  then show ?thesis by (auto simp: upload_handler_valid)
qed

lemma upload_handler_keeps_ids:
  "dom (map_of (bots_db s)) \<subseteq> dom (map_of (bots_db (snd (upload_handler s req file now))))"
proof (cases "falsy (req_username req) \<or> falsy (req_bot_name req) \<or> file = None")
  case True
  then show ?thesis by (simp add: upload_handler_invalid)
next
  case False
  then show ?thesis by (auto simp: upload_handler_valid obj_set_def update_conv')
qed

lemma upload_without_file:
  "req_file req = None \<Longrightarrow> post_upload s req now_ms now io_ok = (ValidationError, s)"
  by (simp add: post_upload_def upload_single_def upload_handler_invalid)

lemma upload_without_username:
  "req_file req = Some f \<Longrightarrow> req_username req = None \<Longrightarrow>
   post_upload s req now_ms now io_ok = (Unhandled PathArgType, s)"
  by (simp add: post_upload_def upload_single_def storage_destination_def)

lemma upload_storage_failed:
  "req_file req = Some f \<Longrightarrow> req_username req = Some u \<Longrightarrow>
   post_upload s req now_ms now False = (Unhandled StorageFailed, s)"
  by (simp add: post_upload_def upload_single_def storage_destination_def Let_def)

lemma upload_stored:
  "req_file req = Some f \<Longrightarrow> req_username req = Some u \<Longrightarrow>
   post_upload s req now_ms now True =
     upload_handler
       (s\<lparr>disk := insert (path_join (path_join BOTS_DIR u) (storage_filename req now_ms f)) (disk s)\<rparr>)
       req
       (Some \<lparr>filename = storage_filename req now_ms f,
              path = path_join (path_join BOTS_DIR u) (storage_filename req now_ms f)\<rparr>)
       now"
  by (simp add: post_upload_def upload_single_def storage_destination_def Let_def)

lemma upload_registry:
  "runningProcesses (snd (post_upload s req now_ms now io_ok)) = runningProcesses s"
proof (cases "req_file req")
  case None
  then show ?thesis by (simp add: upload_without_file)
next
  case (Some f)
  show ?thesis
  proof (cases "req_username req")
    case None
    with Some show ?thesis by (simp add: upload_without_username)
  next
    case (Some u)
    with \<open>req_file req = Some f\<close> show ?thesis
      by (cases io_ok) (simp_all add: upload_storage_failed upload_stored upload_handler_registry)
  qed
qed

lemma upload_keeps_ids:
  "dom (map_of (bots_db s)) \<subseteq> dom (map_of (bots_db (snd (post_upload s req now_ms now io_ok))))"
proof (cases "req_file req")
  case None
  then show ?thesis by (simp add: upload_without_file)
next
  case (Some f)
  show ?thesis
  proof (cases "req_username req")
    case None
    with Some show ?thesis by (simp add: upload_without_username)
  next
    case (Some u)
    show ?thesis
    proof (cases io_ok)
      case True
      with Some \<open>req_file req = Some f\<close>
        upload_handler_keeps_ids
          [of "s\<lparr>disk := insert (path_join (path_join BOTS_DIR u) (storage_filename req now_ms f)) (disk s)\<rparr>"]
      show ?thesis by (simp add: upload_stored)
    next
      case False
      with Some \<open>req_file req = Some f\<close> show ?thesis by (simp add: upload_storage_failed)
    qed
  qed
qed

text \<open>
  An upload that lacks the owner, the bot name or the file creates no record, and its
  reply is no success.
\<close>

lemma upload_missing_field:
  assumes "falsy (req_username req) \<or> falsy (req_bot_name req) \<or> req_file req = None"
  shows "bots_db (snd (post_upload s req now_ms now io_ok)) = bots_db s
    \<and> (\<forall>p. fst (post_upload s req now_ms now io_ok) \<noteq> R200 p)"
proof (cases "req_file req")
  case None
  then show ?thesis by (simp add: upload_without_file)
next
  case (Some f)
  show ?thesis
  proof (cases "req_username req")
    case None
    with Some show ?thesis by (simp add: upload_without_username)
  next
    case (Some u)
    from assms \<open>req_file req = Some f\<close>
    have "falsy (req_username req) \<or> falsy (req_bot_name req)"
      by simp
    with Some \<open>req_file req = Some f\<close> show ?thesis
      by (cases io_ok) (simp_all add: upload_storage_failed upload_stored upload_handler_invalid)
  qed
qed

text \<open>
  C6. The claim: an upload without owner, bot name or file fails with a 400
  \<open>ValidationError\<close>. The code at a request with a file and a bot name and no
  \<open>username\<close> field: the \<open>destination\<close> callback calls \<open>path.join\<close> on the missing
  value, which throws before the route handler and its check run. No record is created.
\<close>

theorem upload_without_username_is_unhandled:
  "post_upload init_state nameless_request 1700000000000 ''2023-11-14T22:13:20.000Z'' True
     = (Unhandled PathArgType, init_state)
   \<and> post_upload init_state nameless_request 1700000000000 ''2023-11-14T22:13:20.000Z'' False
     = (Unhandled PathArgType, init_state)"
  by (simp add: upload_without_username [where f = "''echo.py''"] nameless_request_def)

text \<open>
  A successful upload whose id is not \<open>__proto__\<close> creates the record under the id it
  returns, \<open>stopped\<close> and with the owner, name and time of the request, and the owner's
  list shows it with the status read from \<open>runningProcesses\<close>.
\<close>

lemma upload_creates_record:
  assumes "fst (post_upload s req now_ms now io_ok) = R200 (Uploaded i m)"
    and "i \<noteq> ''__proto__''"
  shows "\<exists>b. map_of (bots_db (snd (post_upload s req now_ms now io_ok))) i = Some b
    \<and> bot_id b = i \<and> status b = ''stopped'' \<and> created_at b = now
    \<and> started_at b = None \<and> stopped_at b = None
    \<and> req_username req = Some (username b) \<and> req_bot_name req = Some (name b)
    \<and> get_bots (snd (post_upload s req now_ms now io_ok)) (username b)
        \<in> {R200 (BotList bs) | bs.
             b\<lparr>status := (if is_running s i then ''running'' else ''stopped'')\<rparr> \<in> set bs}"
proof -
  let ?s1 = "snd (post_upload s req now_ms now io_ok)"
  from assms(1) upload_missing_field [of req s now_ms now io_ok]
  have ok: "\<not> falsy (req_username req)" "\<not> falsy (req_bot_name req)"
    and "req_file req \<noteq> None"
    by auto
  then obtain f u n where f: "req_file req = Some f" and u: "req_username req = Some u"
    and n: "req_bot_name req = Some n"
    by (auto simp: falsy_def split: option.splits)
  have io: io_ok
  proof (rule ccontr)
    assume "\<not> io_ok"
    with assms(1) f u show False by (simp add: upload_storage_failed)
  qed
  let ?f = "\<lparr>filename = storage_filename req now_ms f,
    path = path_join (path_join BOTS_DIR u) (storage_filename req now_ms f)\<rparr>"
  let ?b = "\<lparr>bot_id = i, name = n, username = u, file_path = path ?f,
    file_type = drop 1 (path_extname (filename ?f)), status = ''stopped'', created_at = now,
    started_at = None, stopped_at = None, cpu = 0, memory = 0\<rparr>"
  from assms(1) io f u ok
  have i: "i = path_basename (filename ?f) (path_extname (filename ?f))"
    by (simp add: upload_stored upload_handler_valid)
  from io f u n ok i assms(2)
  have db: "bots_db ?s1 = AList.update i ?b (bots_db s)"
    and reg: "runningProcesses ?s1 = runningProcesses s"
    by (simp_all add: upload_stored upload_handler_valid obj_set_def js_str_def)
  from db have rec: "map_of (bots_db ?s1) i = Some ?b"
    by (simp add: update_conv')
  then have "?b \<in> snd ` set (bots_db ?s1)"
    by (auto dest!: map_of_SomeD intro: rev_image_eqI)
  moreover from reg have "is_running ?s1 i = is_running s i"
    by (simp add: is_running_def)
  ultimately have "get_bots ?s1 u
      \<in> {R200 (BotList bs) | bs.
           ?b\<lparr>status := (if is_running s i then ''running'' else ''stopped'')\<rparr> \<in> set bs}"
    by (auto simp: get_bots_def loadBots_def Let_def intro!: rev_image_eqI)
  with rec u n show ?thesis
    by simp
qed

text \<open>
  C8. The claim: after a successful upload a record exists for the returned id and is
  listed for its owner. The code at \<open>proto_request\<close>: the reply is a success with the
  id \<open>__proto__\<close>, the assignment \<open>bots[botId] = ...\<close> sets the prototype of
  \<open>bots\<close> and no property, and the record file and the owner's list stay empty.
\<close>

theorem upload_proto_creates_no_record:
  "fst (post_upload init_state proto_request 1700000000000 ''2023-11-14T22:13:20.000Z'' True)
     = R200 (Uploaded ''__proto__'' ''Bot uploaded successfully'')
   \<and> bots_db (snd (post_upload init_state proto_request 1700000000000
         ''2023-11-14T22:13:20.000Z'' True)) = []
   \<and> get_bots (snd (post_upload init_state proto_request 1700000000000
         ''2023-11-14T22:13:20.000Z'' True)) ''__proto__.a'' = R200 (BotList [])"
  by (simp add: proto_request_def get_bots_def eval_defs)

subsection \<open>The id of an uploaded bot\<close>

lemma replace_ws_no_space: "c \<in> set (replace_ws xs) \<Longrightarrow> \<not> js_space c"
  by (induction xs rule: replace_ws.induct) (auto simp: js_space_def split: if_splits)

lemma replace_ws_clean: "\<forall>c\<in>set ys. \<not> js_space c \<Longrightarrow> replace_ws ys = ys"
  by (induction ys) auto

lemma replace_ws_append_clean:
  assumes "ys \<noteq> []" and "\<forall>c\<in>set ys. \<not> js_space c"
  shows "replace_ws (xs @ ys) = replace_ws xs @ ys"
  using assms
proof (induction xs rule: replace_ws.induct)
  case 1
  then show ?case
    by (simp add: replace_ws_clean)
next
  case (2 c cs)
  show ?case
  proof (cases "js_space c")
    case True
    have "dropWhile js_space (cs @ ys) = dropWhile js_space cs @ ys"
      using "2.prems" by (cases ys) (auto simp: dropWhile_append)
    with True "2.IH"(1) "2.prems" show ?thesis
      by simp
  next
    case False
    with "2.IH"(2) "2.prems" show ?thesis
      by simp
  qed
qed

lemma replace_ws_subset: "set (replace_ws xs) \<subseteq> insert CHR ''_'' (set xs)"
proof (induction xs rule: replace_ws.induct)
  case 1
  then show ?case by simp
next
  case (2 c cs)
  show ?case
  proof (cases "js_space c")
    case True
    with "2.IH"(1) set_dropWhileD [of _ js_space cs] show ?thesis
      by (simp add: subset_iff) blast
  next
    case False
    with "2.IH"(2) show ?thesis
      by (simp add: subset_iff) blast
  qed
qed

lemma show_nat_digits: "set (show_nat n) \<subseteq> set ''0123456789''"
proof (induction n rule: show_nat.induct)
  case (1 n)
  have d: "\<And>k. k < 10 \<Longrightarrow> digit_char k \<in> set ''0123456789''"
    unfolding digit_char_def by (rule nth_mem) simp
  show ?case
  proof (cases "n < 10")
    case True
    with d [of n] show ?thesis by (subst show_nat.simps) simp
  next
    case False
    with "1.IH" d [of "n mod 10"] show ?thesis
      by (subst show_nat.simps) auto
  qed
qed

lemma show_nat_not_empty: "show_nat n \<noteq> []"
  by (subst show_nat.simps) simp

lemma digits_clean:
  "c \<in> set ''0123456789'' \<Longrightarrow> \<not> js_space c \<and> \<not> is_slash c \<and> \<not> is_dot c"
  by (auto simp: js_space_def is_slash_def is_dot_def)

text \<open>The last portion of a path, and the extension, of a stored file name.\<close>

lemma last_component_no_slash: "c \<in> set (last_component p) \<Longrightarrow> \<not> is_slash c"
  by (auto simp: last_component_def dest: set_takeWhileD)

lemma last_component_subset: "set (last_component p) \<subseteq> set p"
  by (auto simp: last_component_def dest!: set_takeWhileD set_dropWhileD)

lemma takeWhile_all_append: "\<forall>x\<in>set xs. P x \<Longrightarrow> takeWhile P (xs @ ys) = xs @ takeWhile P ys"
  by (induction xs) auto

lemma dropWhile_all_append: "\<forall>x\<in>set xs. P x \<Longrightarrow> dropWhile P (xs @ ys) = dropWhile P ys"
  by (induction xs) auto

lemma last_component_ends:
  assumes "base \<noteq> []" and "\<not> is_slash (last base)"
  shows "last_component base \<noteq> [] \<and> last (last_component base) = last base"
proof -
  from assms obtain b d where base: "base = b @ [d]" and "\<not> is_slash d"
    by (cases base rule: rev_cases) auto
  then show ?thesis
    by (simp add: last_component_def)
qed

lemma last_component_append:
  assumes "base \<noteq> []" and "\<not> is_slash (last base)"
    and "\<forall>c\<in>set ext. \<not> is_slash c"
  shows "last_component (base @ ext) = last_component base @ ext"
proof (cases ext rule: rev_cases)
  case Nil
  then show ?thesis by simp
next
  case (snoc e x)
  from assms(1,2) have keep: "dropWhile is_slash (rev base) = rev base"
    by (cases base rule: rev_cases) auto
  from snoc assms(3) have x: "\<not> is_slash x" and e: "\<forall>c\<in>set (rev ext). \<not> is_slash c"
    by auto
  from x snoc have "dropWhile is_slash (rev (base @ ext)) = rev ext @ rev base"
    by simp
  moreover from e have "takeWhile (\<lambda>c. \<not> is_slash c) (rev ext @ rev base)
      = rev ext @ takeWhile (\<lambda>c. \<not> is_slash c) (rev base)"
    by (rule takeWhile_all_append)
  ultimately show ?thesis
    using keep by (simp add: last_component_def)
qed

lemma last_component_clean:
  assumes "\<forall>c\<in>set p. \<not> is_slash c"
  shows "last_component p = p"
proof -
  from assms have d: "dropWhile is_slash (rev p) = rev p"
    by (cases p rule: rev_cases) simp_all
  from assms have t: "takeWhile (\<lambda>c. \<not> is_slash c) (rev p) = rev p"
    by (simp add: takeWhile_eq_all_conv)
  show ?thesis
    unfolding last_component_def d t by simp
qed

lemma extname_cases:
  "path_extname p = [] \<or>
   path_extname p = CHR ''.'' # rev (takeWhile (\<lambda>c. \<not> is_dot c) (rev (last_component p)))"
  unfolding path_extname_def Let_def by argo

lemma extname_shape:
  "path_extname p = [] \<or>
   (\<exists>e. path_extname p = CHR ''.'' # e \<and> (\<forall>c\<in>set e. \<not> is_dot c \<and> \<not> is_slash c))"
proof -
  let ?e = "rev (takeWhile (\<lambda>c. \<not> is_dot c) (rev (last_component p)))"
  have "\<forall>c\<in>set ?e. \<not> is_dot c \<and> \<not> is_slash c"
    by (auto dest!: set_takeWhileD simp: last_component_no_slash)
  with extname_cases [of p] show ?thesis
    by blast
qed

lemma extname_stem:
  assumes "stem \<noteq> []" and "\<not> is_dot (last stem)"
    and "\<forall>c\<in>set stem. \<not> is_slash c"
    and "\<forall>c\<in>set e. \<not> is_dot c \<and> \<not> is_slash c"
  shows "path_extname (stem @ CHR ''.'' # e) = CHR ''.'' # e"
proof -
  let ?comp = "stem @ CHR ''.'' # e"
  from assms(3,4) have comp: "last_component ?comp = ?comp"
    by (intro last_component_clean) (auto simp: is_slash_def)
  from assms(4) have e: "\<forall>c\<in>set (rev e). \<not> is_dot c"
    by simp
  have rc: "rev ?comp = rev e @ CHR ''.'' # rev stem"
    by simp
  have tw: "takeWhile (\<lambda>c. \<not> is_dot c) (rev ?comp) = rev e"
    unfolding rc by (subst takeWhile_all_append [OF e]) (simp add: is_dot_def)
  have dw: "dropWhile (\<lambda>c. \<not> is_dot c) (rev ?comp) = CHR ''.'' # rev stem"
    unfolding rc by (subst dropWhile_all_append [OF e]) (simp add: is_dot_def)
  have neq: "(?comp = ''..'') = False"
  proof -
    have "?comp \<noteq> ''..''"
    proof
      assume eq: "?comp = ''..''"
      then have "length ?comp = 2" by simp
      with assms(1) have "length stem = 1 \<and> e = []"
        by (cases stem) auto
      then obtain a where "stem = [a]" and "e = []"
        by (cases stem) auto
      with eq assms(2) show False
        by (simp add: is_dot_def)
    qed
    then show ?thesis by blast
  qed
  have dot: "(CHR ''.'' \<notin> set ?comp) = False"
    by simp
  from assms(1) have st: "(rev (drop 1 (CHR ''.'' # rev stem)) = []) = False"
    by simp
  show ?thesis
    unfolding path_extname_def comp Let_def tw dw neq dot st by simp
qed

lemma extname_of_last_component:
  "last_component p = last_component q \<Longrightarrow> path_extname p = path_extname q"
  by (simp add: path_extname_def)

lemma basename_subset: "set (path_basename p x) \<subseteq> set p"
proof -
  have 1: "set (last_component p) \<subseteq> set p"
    by (rule last_component_subset)
  have 2: "set (take k (last_component p)) \<subseteq> set p" for k
    using 1 set_take_subset [of k "last_component p"] by blast
  have 3: "set (last_component p @ trailing_slashes p) \<subseteq> set p"
    using 1 by (auto simp: trailing_slashes_def dest: set_takeWhileD)
  show ?thesis
    unfolding path_basename_def Let_def using 1 2 3 by (simp only: split: if_split) simp
qed

lemma stored_name:
  assumes "base \<noteq> []" and "\<not> is_slash (last base)" and "\<not> is_dot (last base)"
    and "\<forall>c\<in>set e. \<not> is_dot c \<and> \<not> is_slash c"
  shows "path_extname (base @ CHR ''.'' # e) = CHR ''.'' # e"
    and "path_basename (base @ CHR ''.'' # e) (CHR ''.'' # e) = last_component base"
proof -
  let ?ext = "CHR ''.'' # e"
  let ?lc = "last_component base"
  from assms(4) have ext: "\<forall>c\<in>set ?ext. \<not> is_slash c"
    by (simp add: is_slash_def)
  from assms(1,2) have lc: "?lc \<noteq> []" "last ?lc = last base"
    using last_component_ends by blast+
  have comp: "last_component (base @ ?ext) = ?lc @ ?ext"
    using assms(1,2) ext by (rule last_component_append)
  have clean: "\<forall>c\<in>set (?lc @ ?ext). \<not> is_slash c"
    using ext by (auto dest: last_component_no_slash)
  then have "last_component (?lc @ ?ext) = ?lc @ ?ext"
    by (rule last_component_clean)
  with comp have "path_extname (base @ ?ext) = path_extname (?lc @ ?ext)"
    by (intro extname_of_last_component) simp
  also have "\<dots> = ?ext"
    using lc assms(3,4) by (intro extname_stem) (auto dest: last_component_no_slash)
  finally show "path_extname (base @ ?ext) = ?ext" .
  have a: "(?ext = [] \<or> length (base @ ?ext) < length ?ext) = False"
    by simp
  from assms(1) have b: "(?ext = base @ ?ext) = False"
    by simp
  have c: "ends_with (?lc @ ?ext) ?ext = True"
    by (simp add: ends_with_def)
  from lc(1) have d: "(?lc @ ?ext = ?ext) = False"
    by simp
  show "path_basename (base @ ?ext) ?ext = ?lc"
    unfolding path_basename_def comp Let_def a b c d by simp
qed

text \<open>The string the \<open>filename\<close> callback builds ends with the digits of the time.\<close>

lemma collapsed_id:
  "replace_ws (u @ ''_'' @ n @ ''_'' @ show_nat t) = replace_ws (u @ ''_'' @ n @ ''_'') @ show_nat t"
proof -
  have "\<forall>c\<in>set (show_nat t). \<not> js_space c"
    using show_nat_digits [of t] digits_clean by blast
  with show_nat_not_empty [of t]
  have "replace_ws ((u @ ''_'' @ n @ ''_'') @ show_nat t) = replace_ws (u @ ''_'' @ n @ ''_'') @ show_nat t"
    by (rule replace_ws_append_clean)
  then show ?thesis by simp
qed

lemma collapsed_id_ends:
  fixes u n t
  defines "base \<equiv> replace_ws (u @ ''_'' @ n @ ''_'' @ show_nat t)"
  shows "base \<noteq> [] \<and> \<not> is_slash (last base) \<and> \<not> is_dot (last base)"
proof -
  have "last (show_nat t) \<in> set ''0123456789''"
    using show_nat_digits [of t] show_nat_not_empty [of t] last_in_set by blast
  then show ?thesis
    unfolding base_def collapsed_id using show_nat_not_empty [of t] digits_clean by simp
qed

lemma upload_returns_stem:
  assumes "fst (post_upload s req now_ms now io_ok) = R200 (Uploaded i m)"
  obtains u n f where "req_username req = Some u" "req_bot_name req = Some n"
    "req_file req = Some f"
    "i = path_basename
       (replace_ws (u @ ''_'' @ n @ ''_'' @ show_nat now_ms) @ path_extname f)
       (path_extname (replace_ws (u @ ''_'' @ n @ ''_'' @ show_nat now_ms) @ path_extname f))"
proof -
  from assms upload_missing_field [of req s now_ms now io_ok]
  have ok: "\<not> falsy (req_username req)" "\<not> falsy (req_bot_name req)" and "req_file req \<noteq> None"
    by auto
  then obtain f u n where f: "req_file req = Some f" and u: "req_username req = Some u"
    and n: "req_bot_name req = Some n"
    by (auto simp: falsy_def split: option.splits)
  have io: io_ok
  proof (rule ccontr)
    assume "\<not> io_ok"
    with assms f u show False by (simp add: upload_storage_failed)
  qed
  have fn: "storage_filename req now_ms f
      = replace_ws (u @ ''_'' @ n @ ''_'' @ show_nat now_ms) @ path_extname f"
    using u n by (simp add: storage_filename_def js_str_def Let_def)
  from assms have "fst (upload_handler
       (s\<lparr>disk := insert (path_join (path_join BOTS_DIR u) (storage_filename req now_ms f)) (disk s)\<rparr>)
       req
       (Some \<lparr>filename = storage_filename req now_ms f,
              path = path_join (path_join BOTS_DIR u) (storage_filename req now_ms f)\<rparr>)
       now) = R200 (Uploaded i m)"
    unfolding upload_stored [OF f u, symmetric] using io by simp
  then have "i = path_basename (storage_filename req now_ms f)
      (path_extname (storage_filename req now_ms f))"
    unfolding upload_handler_valid [OF ok] by simp
  then show ?thesis
    unfolding fn using that [OF u n f] by blast
qed

text \<open>
  The id a successful upload returns never holds whitespace. When the uploaded file's
  name has an extension and neither owner nor bot name holds a slash, the id is the
  string \<open>{owner}_{name}_{time}\<close> with each run of whitespace replaced by an
  underscore.
\<close>

lemma upload_id_no_whitespace:
  assumes "fst (post_upload s req now_ms now io_ok) = R200 (Uploaded i m)"
  shows "\<forall>c\<in>set i. \<not> js_space c"
proof -
  from assms obtain u n f where
    i: "i = path_basename
       (replace_ws (u @ ''_'' @ n @ ''_'' @ show_nat now_ms) @ path_extname f)
       (path_extname (replace_ws (u @ ''_'' @ n @ ''_'' @ show_nat now_ms) @ path_extname f))"
    by (rule upload_returns_stem)
  let ?base = "replace_ws (u @ ''_'' @ n @ ''_'' @ show_nat now_ms)"
  note base = collapsed_id_ends [of u n now_ms]
  have clean: "\<forall>c\<in>set ?base. \<not> js_space c"
    using replace_ws_no_space by blast
  from extname_shape [of f] have "set i \<subseteq> set ?base"
  proof
    assume "path_extname f = []"
    with i basename_subset [of ?base "path_extname ?base"] show ?thesis
      by simp
  next
    assume "\<exists>e. path_extname f = CHR ''.'' # e \<and> (\<forall>c\<in>set e. \<not> is_dot c \<and> \<not> is_slash c)"
    then obtain e where e: "path_extname f = CHR ''.'' # e"
      and clean_e: "\<forall>c\<in>set e. \<not> is_dot c \<and> \<not> is_slash c"
      by blast
    from base have "path_extname (?base @ CHR ''.'' # e) = CHR ''.'' # e"
      and "path_basename (?base @ CHR ''.'' # e) (CHR ''.'' # e) = last_component ?base"
      using clean_e by (blast intro: stored_name)+
    with i e have "i = last_component ?base"
      by simp
    with last_component_subset [of ?base] show ?thesis
      by simp
  qed
  with clean show ?thesis
    by blast
qed

lemma upload_id_with_extension:
  assumes "fst (post_upload s req now_ms now io_ok) = R200 (Uploaded i m)"
    and "req_username req = Some u" and "req_bot_name req = Some n"
    and "req_file req = Some f" and "path_extname f \<noteq> []"
    and "CHR ''/'' \<notin> set u" and "CHR ''/'' \<notin> set n"
  shows "i = replace_ws (u @ ''_'' @ n @ ''_'' @ show_nat now_ms)"
proof -
  let ?base = "replace_ws (u @ ''_'' @ n @ ''_'' @ show_nat now_ms)"
  from assms(1) obtain u0 n0 f0 where "req_username req = Some u0" "req_bot_name req = Some n0"
    "req_file req = Some f0"
    and "i = path_basename
       (replace_ws (u0 @ ''_'' @ n0 @ ''_'' @ show_nat now_ms) @ path_extname f0)
       (path_extname (replace_ws (u0 @ ''_'' @ n0 @ ''_'' @ show_nat now_ms) @ path_extname f0))"
    by (rule upload_returns_stem)
  with assms(2-4)
  have i: "i = path_basename (?base @ path_extname f) (path_extname (?base @ path_extname f))"
    by simp
  note base = collapsed_id_ends [of u n now_ms]
  from assms(5) extname_shape [of f] obtain e where e: "path_extname f = CHR ''.'' # e"
    and clean_e: "\<forall>c\<in>set e. \<not> is_dot c \<and> \<not> is_slash c"
    by blast
  from base have "path_extname (?base @ CHR ''.'' # e) = CHR ''.'' # e"
    and "path_basename (?base @ CHR ''.'' # e) (CHR ''.'' # e) = last_component ?base"
    using clean_e by (blast intro: stored_name)+
  with i e have lc: "i = last_component ?base"
    by simp
  have "\<forall>c\<in>set (show_nat now_ms). c \<noteq> CHR ''/''"
    using show_nat_digits [of now_ms] by auto
  with assms(6,7) have "CHR ''/'' \<notin> set (u @ ''_'' @ n @ ''_'' @ show_nat now_ms)"
    by auto
  with replace_ws_subset [of "u @ ''_'' @ n @ ''_'' @ show_nat now_ms"]
  have "CHR ''/'' \<notin> set ?base"
    by blast
  then have "\<forall>c\<in>set ?base. \<not> is_slash c"
    by (auto simp: is_slash_def)
  then have "last_component ?base = ?base"
    by (rule last_component_clean)
  with lc show ?thesis
    by simp
qed

text \<open>
  The example of the specification: owner \<open>alice\<close>, name \<open>echoBot\<close> and a \<open>.py\<close>
  file give, at any time, the id \<open>alice_echoBot_\<close> followed by the digits of the time.
\<close>

lemma upload_alice_id:
  assumes "fst (post_upload s alice_request now_ms now io_ok) = R200 (Uploaded i m)"
  shows "i = ''alice_echoBot_'' @ show_nat now_ms
    \<and> show_nat now_ms \<noteq> [] \<and> set (show_nat now_ms) \<subseteq> set ''0123456789''"
proof -
  have ext: "path_extname ''echo.py'' \<noteq> []"
    by (simp add: path_extname_def last_component_def is_slash_def is_dot_def)
  have "\<forall>c\<in>set (''alice_echoBot_'' @ show_nat now_ms). \<not> js_space c"
    using show_nat_digits [of now_ms] digits_clean by (auto simp: js_space_def)
  then have "replace_ws (''alice_echoBot_'' @ show_nat now_ms) = ''alice_echoBot_'' @ show_nat now_ms"
    by (rule replace_ws_clean)
  moreover from upload_id_with_extension [OF assms, of "''alice''" "''echoBot''" "''echo.py''"] ext
  have "i = replace_ws (''alice'' @ ''_'' @ ''echoBot'' @ ''_'' @ show_nat now_ms)"
    by (simp add: alice_request_def)
  ultimately show ?thesis
    using show_nat_digits [of now_ms] show_nat_not_empty [of now_ms] by simp
qed

text \<open>
  C9. The claim: the id of an uploaded bot is the string
  \<open>{owner}_{name}_{timestamp}\<close> with its whitespace replaced. The code at
  \<open>dotted_request\<close>, a file without extension from the owner \<open>alice.smith\<close>: the
  stored file is named by that string, the handler reads \<open>.smith_echoBot_1700000000000\<close>
  as the file's extension, and the id it returns and records is \<open>alice\<close>.
\<close>

theorem upload_dotted_owner_id:
  "replace_ws (''alice.smith'' @ ''_'' @ ''echoBot'' @ ''_'' @ show_nat 1700000000000)
     = ''alice.smith_echoBot_1700000000000''
   \<and> storage_filename dotted_request 1700000000000 ''echo'' = ''alice.smith_echoBot_1700000000000''
   \<and> fst (post_upload init_state dotted_request 1700000000000 ''2023-11-14T22:13:20.000Z'' True)
       = R200 (Uploaded ''alice'' ''Bot uploaded successfully'')
   \<and> map fst (bots_db (snd (post_upload init_state dotted_request 1700000000000
         ''2023-11-14T22:13:20.000Z'' True))) = [''alice'']"
  by (simp add: dotted_request_def eval_defs)

subsection \<open>Stop\<close>

lemma kill_and_forget_own:
  "runningProcesses s i = Some p \<Longrightarrow>
   kill_and_forget s i =
     Inr (s\<lparr>killed := killed s @ [p], runningProcesses := (runningProcesses s)(i := None)\<rparr>)"
  by (simp add: kill_and_forget_def js_get_Some)

lemma kill_and_forget_prototype:
  "runningProcesses s i = None \<Longrightarrow> kill_and_forget s i = Inl KillNotFunction"
  by (simp add: kill_and_forget_def js_get_def)

lemma stop_unknown:
  "map_of (bots_db s) i = None \<Longrightarrow> i \<notin> set object_prototype_keys \<Longrightarrow>
   post_stop s i now = (NotFound, s)"
  by (simp add: post_stop_def loadBots_def truthy_js_get)

lemma stop_not_running:
  "map_of (bots_db s) i = Some b \<Longrightarrow> \<not> is_running s i \<Longrightarrow>
   post_stop s i now = (NotRunning, s)"
  by (simp add: post_stop_def loadBots_def is_running_def truthy_js_get)

lemma stop_prototype_key:
  assumes "truthy (js_get (map_of (bots_db s)) i)"
    and "runningProcesses s i = None" and "i \<in> set object_prototype_keys"
  shows "post_stop s i now = (R500 KillNotFunction, s)"
  using assms
  by (simp add: post_stop_def loadBots_def truthy_js_get kill_and_forget_prototype)

lemma stop_running:
  assumes "map_of (bots_db s) i = Some b" and "runningProcesses s i = Some p"
  shows "post_stop s i now =
     (R200 (Message ''Bot stopped successfully''),
      s\<lparr>killed := killed s @ [p], runningProcesses := (runningProcesses s)(i := None),
        bots_db := AList.update i (b\<lparr>status := ''stopped'', stopped_at := Some now\<rparr>) (bots_db s)\<rparr>)"
  using assms
  by (simp add: post_stop_def loadBots_def saveBots_def truthy_js_get js_get_Some
      kill_and_forget_own Let_def)

lemma stop_running_no_record:
  assumes "map_of (bots_db s) i = None" and "i \<in> set object_prototype_keys"
    and "runningProcesses s i = Some p"
  shows "post_stop s i now =
     (R200 (Message ''Bot stopped successfully''),
      s\<lparr>killed := killed s @ [p], runningProcesses := (runningProcesses s)(i := None)\<rparr>)"
  using assms
  by (simp add: post_stop_def loadBots_def saveBots_def truthy_js_get js_get_prototype
      kill_and_forget_own Let_def)

lemma stop_cases:
  obtains "snd (post_stop s i now) = s"
  | b p where "map_of (bots_db s) i = Some b" "runningProcesses s i = Some p"
  | p where "map_of (bots_db s) i = None" "i \<in> set object_prototype_keys"
      "runningProcesses s i = Some p"
proof (cases "runningProcesses s i")
  case None
  show ?thesis
  proof (cases "truthy (js_get (map_of (bots_db s)) i)")
    case True
    show ?thesis
    proof (cases "i \<in> set object_prototype_keys")
      case True
      with \<open>truthy (js_get (map_of (bots_db s)) i)\<close> None that(1) show ?thesis
        by (simp add: stop_prototype_key)
    next
      case False
      with None True that(1) show ?thesis
        by (auto simp: truthy_js_get stop_not_running not_running_iff)
    qed
  next
    case False
    with that(1) show ?thesis
      by (simp add: post_stop_def loadBots_def)
  qed
next
  case (Some p)
  show ?thesis
  proof (cases "map_of (bots_db s) i")
    case None
    with Some that(1,3) show ?thesis
      by (cases "i \<in> set object_prototype_keys") (simp_all add: stop_unknown)
  next
    case (Some b)
    with \<open>runningProcesses s i = Some p\<close> that(2) show ?thesis by blast
  qed
qed

text \<open>
  Stop on an id with a record that is not the name of a member of \<open>Object.prototype\<close>:
  \<open>NotRunning\<close> and no change without an entry in \<open>runningProcesses\<close>; with one,
  the process is killed, the entry removed at once, and the record saved as \<open>stopped\<close>
  with its \<open>stopped_at\<close>.
\<close>

lemma stop_ordinary_id:
  assumes "map_of (bots_db s) i = Some b" and "i \<notin> set object_prototype_keys"
  shows "(runningProcesses s i = None \<longrightarrow> post_stop s i now = (NotRunning, s))
    \<and> (\<forall>p. runningProcesses s i = Some p \<longrightarrow>
          fst (post_stop s i now) = R200 (Message ''Bot stopped successfully'')
          \<and> runningProcesses (snd (post_stop s i now)) i = None
          \<and> killed (snd (post_stop s i now)) = killed s @ [p]
          \<and> map_of (bots_db (snd (post_stop s i now))) i
              = Some (b\<lparr>status := ''stopped'', stopped_at := Some now\<rparr>))"
  using assms
  by (auto simp: stop_not_running not_running_iff stop_running update_conv')

text \<open>
  C3. The claim: for an id with a record and no entry in \<open>runningProcesses\<close>, stop
  fails with \<open>NotRunning\<close>. The code at the bot that the upload of
  \<open>constructor_request\<close> creates, never started: its id is \<open>constructor\<close>,
  \<open>runningProcesses[botId]\<close> is the inherited \<open>Object\<close> function, the call of its
  \<open>kill\<close> throws, and stop replies 500.
\<close>

theorem stop_of_never_started_constructor_bot:
  "fst (post_upload init_state constructor_request 1700000000000 ''2023-11-14T22:13:20.000Z'' True)
     = R200 (Uploaded ''constructor'' ''Bot uploaded successfully'')
   \<and> map_of (bots_db constructor_state) ''constructor'' \<noteq> None
   \<and> runningProcesses constructor_state ''constructor'' = None
   \<and> post_stop constructor_state ''constructor'' ''2023-11-14T22:14:00.000Z''
       = (R500 KillNotFunction, constructor_state)"
proof -
  have up: "fst (post_upload init_state constructor_request 1700000000000
      ''2023-11-14T22:13:20.000Z'' True)
     = R200 (Uploaded ''constructor'' ''Bot uploaded successfully'')"
    by (simp add: constructor_request_def eval_defs)
  have db: "map_of (bots_db constructor_state) ''constructor'' \<noteq> None"
    and reg: "runningProcesses constructor_state ''constructor'' = None"
    by (simp_all add: constructor_state_eq)
  from db have found: "truthy (js_get (map_of (bots_db constructor_state)) ''constructor'')"
    by (simp add: truthy_js_get)
  from up db reg stop_prototype_key [OF found reg constructor_is_prototype_key]
  show ?thesis
    by simp
qed

subsection \<open>Delete\<close>

lemma delete_unknown:
  "map_of (bots_db s) i = None \<Longrightarrow> i \<notin> set object_prototype_keys \<Longrightarrow>
   delete_bot s i = (NotFound, s)"
  by (simp add: delete_bot_def loadBots_def truthy_js_get)

lemma delete_prototype_key:
  assumes "truthy (js_get (map_of (bots_db s)) i)"
    and "runningProcesses s i = None" and "i \<in> set object_prototype_keys"
  shows "delete_bot s i = (R500 KillNotFunction, s)"
  using assms
  by (simp add: delete_bot_def loadBots_def truthy_js_get kill_and_forget_prototype)

lemma delete_stopped:
  assumes "map_of (bots_db s) i = Some b" and "\<not> is_running s i"
  shows "delete_bot s i =
     (R200 (Message ''Bot deleted successfully''),
      (without_file s b)\<lparr>bots_db := AList.delete i (bots_db s)\<rparr>)"
  using assms
  by (simp add: delete_bot_def loadBots_def saveBots_def is_running_def js_get_Some
      Let_def)

lemma delete_running:
  assumes "map_of (bots_db s) i = Some b" and "runningProcesses s i = Some p"
  shows "delete_bot s i =
     (R200 (Message ''Bot deleted successfully''),
      (without_file
         (s\<lparr>killed := killed s @ [p], runningProcesses := (runningProcesses s)(i := None)\<rparr>) b)
       \<lparr>bots_db := AList.delete i (bots_db s)\<rparr>)"
  using assms
  by (simp add: delete_bot_def loadBots_def saveBots_def truthy_js_get js_get_Some
      kill_and_forget_own Let_def)

lemma delete_running_no_record:
  assumes "map_of (bots_db s) i = None" and "i \<in> set object_prototype_keys"
    and "runningProcesses s i = Some p"
  shows "delete_bot s i =
     (R200 (Message ''Bot deleted successfully''),
      s\<lparr>killed := killed s @ [p], runningProcesses := (runningProcesses s)(i := None),
        bots_db := AList.delete i (bots_db s)\<rparr>)"
  using assms
  by (simp add: delete_bot_def loadBots_def saveBots_def truthy_js_get js_get_prototype
      kill_and_forget_own Let_def)

lemma without_file_fields [simp]:
  "bots_db (without_file s b) = bots_db s"
  "runningProcesses (without_file s b) = runningProcesses s"
  "killed (without_file s b) = killed s"
  "disk (without_file s b) = disk s - {file_path b}"
  by (auto simp: without_file_def)

text \<open>
  Delete on an id with a record that is not the name of a member of
  \<open>Object.prototype\<close>: a running process is killed and its entry removed, the file is
  removed from the disk when it is there, and the record is removed.
\<close>

lemma delete_ordinary_id:
  assumes "map_of (bots_db s) i = Some b" and "i \<notin> set object_prototype_keys"
  shows "fst (delete_bot s i) = R200 (Message ''Bot deleted successfully'')
    \<and> runningProcesses (snd (delete_bot s i)) i = None
    \<and> killed (snd (delete_bot s i))
        = killed s @ (case runningProcesses s i of None \<Rightarrow> [] | Some p \<Rightarrow> [p])
    \<and> disk (snd (delete_bot s i)) = disk s - {file_path b}
    \<and> map_of (bots_db (snd (delete_bot s i))) = (map_of (bots_db s))(i := None)"
proof (cases "runningProcesses s i")
  case None
  with assms have "\<not> is_running s i" by (simp add: not_running_iff)
  with assms None show ?thesis by (simp add: delete_stopped delete_conv')
next
  case (Some p)
  with assms show ?thesis by (simp add: delete_running delete_conv')
qed

text \<open>
  C5. The claim: for every id with a record, delete succeeds. The code at the bot that
  the upload of \<open>constructor_request\<close> creates: \<open>runningProcesses[botId]\<close> is the
  inherited \<open>Object\<close> function, the call of its \<open>kill\<close> throws, delete replies 500,
  and the record and the file stay.
\<close>

theorem delete_of_constructor_bot_fails:
  "map_of (bots_db constructor_state) ''constructor'' \<noteq> None
   \<and> delete_bot constructor_state ''constructor'' = (R500 KillNotFunction, constructor_state)
   \<and> map_of (bots_db (snd (delete_bot constructor_state ''constructor''))) ''constructor'' \<noteq> None
   \<and> disk (snd (delete_bot constructor_state ''constructor''))
       = {''user_bots/constructor.a/constructor.a_b_1700000000000''}"
proof -
  have db: "map_of (bots_db constructor_state) ''constructor'' \<noteq> None"
    and reg: "runningProcesses constructor_state ''constructor'' = None"
    and files: "disk constructor_state = {''user_bots/constructor.a/constructor.a_b_1700000000000''}"
    by (simp_all add: constructor_state_eq)
  from db have found: "truthy (js_get (map_of (bots_db constructor_state)) ''constructor'')"
    by (simp add: truthy_js_get)
  from db files delete_prototype_key [OF found reg constructor_is_prototype_key]
  show ?thesis
    by simp
qed

subsection \<open>Ids without a record\<close>

lemma status_unknown:
  "map_of (bots_db s) i = None \<Longrightarrow> i \<notin> set object_prototype_keys \<Longrightarrow>
   get_status s i = NotFound"
  by (simp add: get_status_def loadBots_def js_get_missing)

lemma logs_unknown:
  "map_of (bots_db s) i = None \<Longrightarrow> i \<notin> set object_prototype_keys \<Longrightarrow>
   get_logs s i = NotFound"
  by (simp add: get_logs_def loadBots_def js_get_missing)

lemma status_prototype_key:
  "map_of (bots_db s) i = None \<Longrightarrow> i \<in> set object_prototype_keys \<Longrightarrow>
   get_status s i = R200 (StatusInfo ''running'' 0 0)"
  by (simp add: get_status_def loadBots_def js_get_prototype is_running_def truthy_js_get)

lemma logs_prototype_key:
  "map_of (bots_db s) i = None \<Longrightarrow> i \<in> set object_prototype_keys \<Longrightarrow>
   get_logs s i =
     R200 (LogText (''Bot: '' @ inherited_name i @ [CHR 0x0A] @ ''Status: Running'' @ [CHR 0x0A]
       @ ''Created: undefined'' @ [CHR 0x0A]))"
  by (simp add: get_logs_def loadBots_def js_get_prototype is_running_def truthy_js_get)

text \<open>
  The five lifecycle routes on an id that has no record and is not the name of a member
  of \<open>Object.prototype\<close>: all reply 404 and change nothing.
\<close>

lemma unknown_ordinary_id_not_found:
  assumes "map_of (bots_db s) i = None" and "i \<notin> set object_prototype_keys"
  shows "post_start s i now = (NotFound, s) \<and> post_stop s i now = (NotFound, s)
    \<and> delete_bot s i = (NotFound, s) \<and> get_status s i = NotFound \<and> get_logs s i = NotFound"
  using assms
  by (simp add: start_unknown stop_unknown delete_unknown status_unknown logs_unknown)

text \<open>After the delete of such an id the routes reply 404 on it.\<close>

lemma deleted_id_not_found:
  assumes "map_of (bots_db s) i = Some b" and "i \<notin> set object_prototype_keys"
  shows "post_start (snd (delete_bot s i)) i now = (NotFound, snd (delete_bot s i))
    \<and> post_stop (snd (delete_bot s i)) i now = (NotFound, snd (delete_bot s i))
    \<and> get_status (snd (delete_bot s i)) i = NotFound
    \<and> get_logs (snd (delete_bot s i)) i = NotFound"
proof -
  from delete_ordinary_id [OF assms] have "map_of (bots_db (snd (delete_bot s i))) i = None"
    by simp
  from unknown_ordinary_id_not_found [OF this assms(2)] show ?thesis
    by simp
qed

text \<open>
  C4. The claim: for an id that has no record, start, stop, delete, status and logs all
  fail with \<open>NotFound\<close>. The code at the id \<open>constructor\<close>, with an empty record file:
  \<open>bots[botId]\<close> is the inherited \<open>Object\<close> function, so no route replies 404. Start
  replies 400 \<open>Bot already running\<close>, stop and delete reply 500, status and logs reply
  200.
\<close>

theorem unknown_id_constructor_is_found:
  "map_of (bots_db init_state) ''constructor'' = None
   \<and> runningProcesses init_state ''constructor'' = None
   \<and> post_start init_state ''constructor'' ''2023-11-14T22:14:00.000Z''
       = (AlreadyRunning, init_state)
   \<and> post_stop init_state ''constructor'' ''2023-11-14T22:14:00.000Z''
       = (R500 KillNotFunction, init_state)
   \<and> delete_bot init_state ''constructor'' = (R500 KillNotFunction, init_state)
   \<and> get_status init_state ''constructor'' = R200 (StatusInfo ''running'' 0 0)
   \<and> get_logs init_state ''constructor''
       = R200 (LogText (''Bot: Object'' @ [CHR 0x0A] @ ''Status: Running'' @ [CHR 0x0A]
           @ ''Created: undefined'' @ [CHR 0x0A]))"
proof -
  have db: "map_of (bots_db init_state) ''constructor'' = None"
    and reg: "runningProcesses init_state ''constructor'' = None"
    by (simp_all add: init_state_def)
  have found: "truthy (js_get (map_of (bots_db init_state)) ''constructor'')"
    by (simp add: truthy_js_get constructor_is_prototype_key)
  have "inherited_name ''constructor'' = ''Object''"
    by (simp add: inherited_name_def)
  with db reg show ?thesis
    using start_prototype_key [OF constructor_is_prototype_key]
      stop_prototype_key [OF found reg constructor_is_prototype_key]
      delete_prototype_key [OF found reg constructor_is_prototype_key]
      status_prototype_key [OF db constructor_is_prototype_key]
      logs_prototype_key [OF db constructor_is_prototype_key]
    by simp
qed

subsection \<open>The ids in \<open>runningProcesses\<close> have records\<close>

lemma start_registry_in_store:
  assumes "dom (runningProcesses s) \<subseteq> dom (map_of (bots_db s))"
  shows "dom (runningProcesses (snd (post_start s i now)))
    \<subseteq> dom (map_of (bots_db (snd (post_start s i now))))"
proof (cases "fst (post_start s i now) = R200 (Message ''Bot started successfully'')")
  case True
  from start_ok_record [OF True] obtain b where
    b: "map_of (bots_db s) i = Some b" and fresh: "\<not> is_running s i"
    by blast
  from assms show ?thesis
    by (auto simp: start_fresh [OF b fresh] update_conv')
next
  case False
  then have "snd (post_start s i now) = s"
    by (auto simp: post_start_def Let_def split: lookup.splits)
  with assms show ?thesis
    by simp
qed

lemma stop_registry_in_store:
  assumes "dom (runningProcesses s) \<subseteq> dom (map_of (bots_db s))"
  shows "dom (runningProcesses (snd (post_stop s i now)))
    \<subseteq> dom (map_of (bots_db (snd (post_stop s i now))))"
proof (cases rule: stop_cases [of s i now])
  case 1
  with assms show ?thesis by simp
next
  case (2 b p)
  with assms show ?thesis by (auto simp: stop_running update_conv')
next
  case (3 p)
  with assms show ?thesis by (auto simp: stop_running_no_record)
qed

lemma delete_registry_in_store:
  assumes "dom (runningProcesses s) \<subseteq> dom (map_of (bots_db s))"
  shows "dom (runningProcesses (snd (delete_bot s i)))
    \<subseteq> dom (map_of (bots_db (snd (delete_bot s i))))"
proof (cases "runningProcesses s i")
  case None
  show ?thesis
  proof (cases "map_of (bots_db s) i")
    case None
    show ?thesis
    proof (cases "i \<in> set object_prototype_keys")
      case True
      with None \<open>runningProcesses s i = None\<close> assms show ?thesis
        by (simp add: delete_prototype_key truthy_js_get)
    next
      case False
      with None assms show ?thesis by (simp add: delete_unknown)
    qed
  next
    case (Some b)
    show ?thesis
    proof (cases "i \<in> set object_prototype_keys")
      case True
      with Some None assms show ?thesis
        by (simp add: delete_prototype_key truthy_js_get)
    next
      case False
      with None have "\<not> is_running s i" by (simp add: not_running_iff)
      with Some None assms show ?thesis
        by (auto simp: delete_stopped delete_conv')
    qed
  qed
next
  case (Some p)
  with assms obtain b where "map_of (bots_db s) i = Some b"
    by blast
  with Some assms show ?thesis
    by (auto simp: delete_running delete_conv')
qed

lemma step_registry_in_store:
  assumes "dom (runningProcesses s) \<subseteq> dom (map_of (bots_db s))"
  shows "dom (runningProcesses (step s e)) \<subseteq> dom (map_of (bots_db (step s e)))"
proof (cases e)
  case (Upload req now_ms now io_ok)
  with assms upload_keeps_ids [of s req now_ms now io_ok] show ?thesis
    by (auto simp: upload_registry)
next
  case (Start i now)
  with start_registry_in_store [OF assms] show ?thesis by simp
next
  case (Stop i now)
  with stop_registry_in_store [OF assms] show ?thesis by simp
next
  case (Delete i)
  with delete_registry_in_store [OF assms] show ?thesis by simp
next
  case (Close i)
  with assms show ?thesis by (auto simp: on_close_def)
next
  case Restart
  then show ?thesis by simp
qed

lemma foldl_registry_in_store:
  "dom (runningProcesses s) \<subseteq> dom (map_of (bots_db s)) \<Longrightarrow>
   dom (runningProcesses (foldl step s es)) \<subseteq> dom (map_of (bots_db (foldl step s es)))"
  by (induction es arbitrary: s) (simp_all add: step_registry_in_store)

text \<open>
  C10. From the start of the service, whatever the record file holds then, and after
  any sequence of uploads, starts, stops, deletes, process exits and restarts, every id
  in \<open>runningProcesses\<close> has a record in the record file.
\<close>

theorem registry_ids_have_records:
  "dom (runningProcesses (foldl step (service_start db files) es))
     \<subseteq> dom (map_of (bots_db (foldl step (service_start db files) es)))"
  by (rule foldl_registry_in_store) (simp add: service_start_def)

subsection \<open>No inherited name enters \<open>runningProcesses\<close>\<close>

text \<open>
  Start is the only writer of \<open>runningProcesses\<close>, and it writes only past the guard
  \<open>runningProcesses[botId]\<close>, which stops every name of a member of
  \<open>Object.prototype\<close>. So these names never become own properties of
  \<open>runningProcesses\<close>, and the branches of stop and delete that pair such a name with
  a live handle are never taken.
\<close>

lemma start_registry_grows:
  "dom (runningProcesses (snd (post_start s i now)))
     \<subseteq> dom (runningProcesses s) \<union> ({i} - set object_prototype_keys)"
proof (cases "fst (post_start s i now) = R200 (Message ''Bot started successfully'')")
  case True
  from start_ok_record [OF True] obtain b where
    b: "map_of (bots_db s) i = Some b" and fresh: "\<not> is_running s i"
    by blast
  from fresh show ?thesis
    by (auto simp: start_fresh [OF b fresh] not_running_iff)
next
  case False
  then have "snd (post_start s i now) = s"
    by (auto simp: post_start_def Let_def split: lookup.splits)
  then show ?thesis
    by auto
qed

lemma stop_registry_shrinks:
  "dom (runningProcesses (snd (post_stop s i now))) \<subseteq> dom (runningProcesses s)"
proof (cases rule: stop_cases [of s i now])
  case 1
  then show ?thesis by simp
next
  case (2 b p)
  then show ?thesis by (auto simp: stop_running)
next
  case (3 p)
  then show ?thesis by (auto simp: stop_running_no_record)
qed

lemma delete_registry_shrinks:
  "dom (runningProcesses (snd (delete_bot s i))) \<subseteq> dom (runningProcesses s)"
proof (cases "runningProcesses s i")
  case None
  show ?thesis
  proof (cases "i \<in> set object_prototype_keys")
    case True
    show ?thesis
    proof (cases "truthy (js_get (map_of (bots_db s)) i)")
      case True
      with None \<open>i \<in> set object_prototype_keys\<close> show ?thesis
        by (simp add: delete_prototype_key)
    next
      case False
      then show ?thesis by (simp add: delete_bot_def loadBots_def)
    qed
  next
    case False
    with None have fresh: "\<not> is_running s i" by (simp add: not_running_iff)
    show ?thesis
    proof (cases "map_of (bots_db s) i")
      case None
      with False show ?thesis by (simp add: delete_unknown)
    next
      case (Some b)
      with fresh show ?thesis by (simp add: delete_stopped)
    qed
  qed
next
  case (Some p)
  show ?thesis
  proof (cases "map_of (bots_db s) i")
    case None
    with Some show ?thesis
      by (cases "i \<in> set object_prototype_keys")
        (auto simp: delete_unknown delete_running_no_record)
  next
    case (Some b)
    with \<open>runningProcesses s i = Some p\<close> show ?thesis by (auto simp: delete_running)
  qed
qed

lemma step_registry_grows:
  "dom (runningProcesses (step s e)) \<subseteq> dom (runningProcesses s) \<union> (UNIV - set object_prototype_keys)"
proof (cases e)
  case (Upload req now_ms now io_ok)
  then show ?thesis by (simp add: upload_registry)
next
  case (Start i now)
  with start_registry_grows [of s i now] show ?thesis by auto
next
  case (Stop i now)
  with stop_registry_shrinks [of s i now] show ?thesis by auto
next
  case (Delete i)
  with delete_registry_shrinks [of s i] show ?thesis by auto
next
  case (Close i)
  then show ?thesis by (auto simp: on_close_def)
next
  case Restart
  then show ?thesis by simp
qed

lemma foldl_registry_ordinary:
  "dom (runningProcesses s) \<inter> set object_prototype_keys = {} \<Longrightarrow>
   dom (runningProcesses (foldl step s es)) \<inter> set object_prototype_keys = {}"
proof (induction es arbitrary: s)
  case Nil
  then show ?case by simp
next
  case (Cons e es)
  from Cons.prems step_registry_grows [of s e]
  have "dom (runningProcesses (step s e)) \<inter> set object_prototype_keys = {}"
    by blast
  from Cons.IH [OF this] show ?case by simp
qed

lemma registry_ids_are_ordinary:
  "dom (runningProcesses (foldl step (service_start db files) es)) \<inter> set object_prototype_keys = {}"
  by (rule foldl_registry_ordinary) (simp add: service_start_def)

subsection \<open>The record file stays well keyed\<close>

lemma update_well_keyed:
  "well_keyed db \<Longrightarrow> bot_id v = k \<Longrightarrow> well_keyed (AList.update k v db)"
proof -
  have "list_all (\<lambda>(k, b). bot_id b = k) db \<Longrightarrow> bot_id v = k \<Longrightarrow>
      list_all (\<lambda>(k, b). bot_id b = k) (AList.update k v db)"
    by (induction db) auto
  then show "well_keyed db \<Longrightarrow> bot_id v = k \<Longrightarrow> well_keyed (AList.update k v db)"
    by (simp add: well_keyed_def distinct_update)
qed

lemma delete_well_keyed: "well_keyed db \<Longrightarrow> well_keyed (AList.delete k db)"
proof -
  have "list_all (\<lambda>(k, b). bot_id b = k) db \<Longrightarrow>
      list_all (\<lambda>(k, b). bot_id b = k) (AList.delete k db)"
    by (induction db) auto
  then show "well_keyed db \<Longrightarrow> well_keyed (AList.delete k db)"
    by (simp add: well_keyed_def distinct_delete)
qed

lemma well_keyed_lookup: "well_keyed db \<Longrightarrow> map_of db k = Some b \<Longrightarrow> bot_id b = k"
  by (auto simp: well_keyed_def list_all_iff dest!: map_of_SomeD)

lemma upload_well_keyed:
  assumes "well_keyed (bots_db s)"
  shows "well_keyed (bots_db (snd (post_upload s req now_ms now io_ok)))"
proof (cases "falsy (req_username req) \<or> falsy (req_bot_name req) \<or> req_file req = None")
  case True
  with assms show ?thesis by (simp add: upload_missing_field)
next
  case False
  then obtain f u where f: "req_file req = Some f" and u: "req_username req = Some u"
    by (auto simp: falsy_def split: option.splits)
  show ?thesis
  proof (cases io_ok)
    case True
    with assms False f u show ?thesis
      by (simp add: upload_stored upload_handler_valid obj_set_def update_well_keyed)
  next
    case False
    with assms f u show ?thesis by (simp add: upload_storage_failed)
  qed
qed

lemma start_well_keyed:
  assumes "well_keyed (bots_db s)"
  shows "well_keyed (bots_db (snd (post_start s i now)))"
proof (cases "fst (post_start s i now) = R200 (Message ''Bot started successfully'')")
  case True
  from start_ok_record [OF True] obtain b where
    b: "map_of (bots_db s) i = Some b" and fresh: "\<not> is_running s i"
    by blast
  from assms b have "bot_id b = i" by (rule well_keyed_lookup)
  with assms show ?thesis
    by (simp add: start_fresh [OF b fresh] update_well_keyed)
next
  case False
  then have "snd (post_start s i now) = s"
    by (auto simp: post_start_def Let_def split: lookup.splits)
  with assms show ?thesis by simp
qed

lemma stop_well_keyed:
  assumes "well_keyed (bots_db s)"
  shows "well_keyed (bots_db (snd (post_stop s i now)))"
proof (cases rule: stop_cases [of s i now])
  case 1
  with assms show ?thesis by simp
next
  case (2 b p)
  from assms 2(1) have "bot_id b = i" by (rule well_keyed_lookup)
  with assms 2 show ?thesis by (simp add: stop_running update_well_keyed)
next
  case (3 p)
  with assms show ?thesis by (simp add: stop_running_no_record)
qed

lemma delete_bot_well_keyed:
  assumes "well_keyed (bots_db s)"
  shows "well_keyed (bots_db (snd (delete_bot s i)))"
proof -
  have "bots_db (snd (delete_bot s i)) = bots_db s
      \<or> bots_db (snd (delete_bot s i)) = AList.delete i (bots_db s)"
    by (auto simp: delete_bot_def saveBots_def loadBots_def Let_def kill_and_forget_def
        split: sum.splits lookup.splits if_splits)
  with assms show ?thesis
    by (auto simp: delete_well_keyed)
qed

lemma step_well_keyed: "well_keyed (bots_db s) \<Longrightarrow> well_keyed (bots_db (step s e))"
  by (cases e)
    (simp_all add: upload_well_keyed start_well_keyed stop_well_keyed delete_bot_well_keyed
      on_close_def)

lemma foldl_well_keyed:
  "well_keyed (bots_db s) \<Longrightarrow> well_keyed (bots_db (foldl step s es))"
  by (induction es arbitrary: s) (simp_all add: step_well_keyed)

lemma run_well_keyed: "well_keyed (bots_db (run es))"
  unfolding run_def by (rule foldl_well_keyed) (simp add: init_state_def well_keyed_def)

end
